theory Spec2Isabelle
  imports Complex_Main "HOL-Library.AList" "HOL-Library.Log_Nat" "HOL-Library.Multiset"
begin

section \<open>Cascade Folder Permissions: the core of scripts/cascade-permissions.js\<close>

text \<open>
  The development embeds the two functions of the module that carry its logic,
  \<^verbatim>\<open>_cascadeOwnership\<close> and \<^verbatim>\<open>_getSubfoldersManual\<close>, and the lines of the submit
  handler that build the form data, together with the part of the JavaScript language they
  rely on: the conversion \<^verbatim>\<open>Number(value)\<close> of a string, the SameValueZero comparison of
  \<^verbatim>\<open>Set.prototype.has\<close>, plain objects used as dictionaries and arrays used as stacks.
\<close>

subsection \<open>JavaScript strings and numbers\<close>

text \<open>
  A JavaScript string is a sequence of UTF-16 code units; a code unit is modelled as a
  natural number. \<open>str\<close> turns an ASCII literal into such a sequence.
\<close>

type_synonym jsstring = "nat list"

definition str :: "string \<Rightarrow> jsstring" where
  "str s = map of_char s"

text \<open>
  A Number value is an IEEE 754 double. \<open>Val q\<close> is the finite double with the rational value
  \<open>q\<close> (\<open>Val 0\<close> is the positive zero), \<open>NegZero\<close> is the negative zero.
\<close>

datatype number = NaN | NegZero | Val rat | PosInfinity | NegInfinity

fun negate :: "number \<Rightarrow> number" where
  "negate NaN = NaN"
| "negate NegZero = Val 0"
| "negate (Val q) = (if q = 0 then NegZero else Val (- q))"
| "negate PosInfinity = NegInfinity"
| "negate NegInfinity = PosInfinity"

text \<open>The mathematical value of a Number, where it has one; both zeros denote 0.\<close>

fun mv :: "number \<Rightarrow> rat option" where
  "mv NegZero = Some 0"
| "mv (Val q) = Some q"
| "mv _ = None"

text \<open>
  Rounding of a non-negative rational to the nearest double, ties to even: the exponent
  \<open>e\<close> is the integer part of the binary logarithm of \<open>q\<close>, not below -1022 (the subnormal
  range), the spacing of doubles at \<open>q\<close> is 2 to the power \<open>e - 52\<close>, and a result of 2 to
  the power 1024 or more is infinite.
\<close>

definition ilog2 :: "rat \<Rightarrow> int" where
  "ilog2 q =
     (let (a, b) = quotient_of q;
          d = int (floorlog 2 (nat a)) - int (floorlog 2 (nat b))
      in if 2 powi d \<le> q then d else d - 1)"

definition round_half_even :: "rat \<Rightarrow> int" where
  "round_half_even x =
     (let f = \<lfloor>x\<rfloor>; d = x - of_int f
      in if d < 1 / 2 then f
         else if 1 / 2 < d then f + 1
         else if even f then f else f + 1)"

definition round_double :: "rat \<Rightarrow> number" where
  "round_double q =
     (if q = 0 then Val 0
      else let e = max (ilog2 q) (- 1022);
               ulp = 2 powi (e - 52);
               r = of_int (round_half_even (q / ulp)) * ulp
           in if 2 powi 1024 \<le> r then PosInfinity else Val r)"

subsection \<open>\<^verbatim>\<open>Number(value)\<close> on a string (ECMAScript StringToNumber)\<close>

text \<open>
  White space and line terminators that \<^verbatim>\<open>Number\<close> strips from both ends: TAB, LF, VT, FF,
  CR, SP, NBSP, the Unicode space separators, LS, PS and ZWNBSP.
\<close>

definition StrWhiteSpaceChar :: "nat \<Rightarrow> bool" where
  "StrWhiteSpaceChar c \<longleftrightarrow>
     c \<in> {9, 10, 11, 12, 13, 32, 160, 5760, 8232, 8233, 8239, 8287, 12288, 65279}
     \<or> (8192 \<le> c \<and> c \<le> 8202)"

definition trim :: "jsstring \<Rightarrow> jsstring" where
  "trim s = rev (dropWhile StrWhiteSpaceChar (rev (dropWhile StrWhiteSpaceChar s)))"

definition DecimalDigit :: "nat \<Rightarrow> bool" where
  "DecimalDigit c \<longleftrightarrow> 48 \<le> c \<and> c \<le> 57"

text \<open>The value of a digit in a radix up to 16, if the code unit is such a digit.\<close>

definition digit_value :: "nat \<Rightarrow> nat \<Rightarrow> nat option" where
  "digit_value radix c =
     (let v = (if 48 \<le> c \<and> c \<le> 57 then Some (c - 48)
               else if 97 \<le> c \<and> c \<le> 102 then Some (c - 87)
               else if 65 \<le> c \<and> c \<le> 70 then Some (c - 55)
               else None)
      in case v of None \<Rightarrow> None | Some d \<Rightarrow> if d < radix then Some d else None)"

fun digits_value :: "nat \<Rightarrow> nat \<Rightarrow> jsstring \<Rightarrow> nat option" where
  "digits_value radix acc [] = Some acc"
| "digits_value radix acc (c # cs) =
     (case digit_value radix c of
        None \<Rightarrow> None
      | Some d \<Rightarrow> digits_value radix (radix * acc + d) cs)"

text \<open>A non-empty run of digits of the radix, and nothing else.\<close>

definition Digits :: "nat \<Rightarrow> jsstring \<Rightarrow> nat option" where
  "Digits radix s = (if s = [] then None else digits_value radix 0 s)"

text \<open>\<^verbatim>\<open>0x\<close>, \<^verbatim>\<open>0o\<close> and \<^verbatim>\<open>0b\<close> literals (either case of the letter); they take no sign.\<close>

definition NonDecimalIntegerLiteral :: "jsstring \<Rightarrow> number option" where
  "NonDecimalIntegerLiteral s =
     (case s of
        z # p # ds \<Rightarrow>
          if z \<noteq> 48 then None
          else let radix = (if p = 120 \<or> p = 88 then Some 16
                            else if p = 111 \<or> p = 79 then Some 8
                            else if p = 98 \<or> p = 66 then Some 2
                            else None)
               in (case radix of
                     None \<Rightarrow> None
                   | Some r \<Rightarrow> map_option (\<lambda>n. round_double (of_nat n)) (Digits r ds))
      | _ \<Rightarrow> None)"

definition SignedInteger :: "jsstring \<Rightarrow> int option" where
  "SignedInteger s =
     (case s of
        [] \<Rightarrow> None
      | c # t \<Rightarrow>
          if c = 43 then map_option int (Digits 10 t)
          else if c = 45 then map_option (\<lambda>n. - int n) (Digits 10 t)
          else map_option int (Digits 10 s))"

text \<open>The optional exponent part: absent (exponent 0), or \<^verbatim>\<open>e\<close>/\<^verbatim>\<open>E\<close> and a signed integer.\<close>

definition ExponentPart :: "jsstring \<Rightarrow> int option" where
  "ExponentPart s =
     (case s of
        [] \<Rightarrow> Some 0
      | c # t \<Rightarrow> if c = 101 \<or> c = 69 then SignedInteger t else None)"

text \<open>
  \<^verbatim>\<open>Infinity\<close>, or digits with an optional fraction and exponent, with at least one digit
  before or after the point.
\<close>

definition StrUnsignedDecimalLiteral :: "jsstring \<Rightarrow> number option" where
  "StrUnsignedDecimalLiteral s =
     (if s = str ''Infinity'' then Some PosInfinity
      else let ip = takeWhile DecimalDigit s;
               r1 = dropWhile DecimalDigit s;
               point = (r1 \<noteq> [] \<and> hd r1 = 46);
               fp = (if point then takeWhile DecimalDigit (tl r1) else []);
               r2 = (if point then dropWhile DecimalDigit (tl r1) else r1)
           in if ip = [] \<and> fp = [] then None
              else (case (digits_value 10 0 (ip @ fp), ExponentPart r2) of
                      (Some m, Some e) \<Rightarrow>
                        Some (round_double (of_nat m * 10 powi (e - int (length fp))))
                    | _ \<Rightarrow> None))"

definition StrDecimalLiteral :: "jsstring \<Rightarrow> number option" where
  "StrDecimalLiteral s =
     (case s of
        [] \<Rightarrow> None
      | c # t \<Rightarrow>
          if c = 43 then StrUnsignedDecimalLiteral t
          else if c = 45 then map_option negate (StrUnsignedDecimalLiteral t)
          else StrUnsignedDecimalLiteral s)"

text \<open>
  \<^verbatim>\<open>Number(value)\<close>: the empty or all-white-space string is \<open>+0\<close>, a string that is not a
  numeric literal is \<open>NaN\<close>. The value of a literal is rounded exactly, as the engines do;
  the latitude that the standard leaves for literals of more than 20 significant digits is
  not used.
\<close>

definition Number :: "jsstring \<Rightarrow> number" where
  "Number s =
     (let t = trim s
      in if t = [] then Val 0
         else (case NonDecimalIntegerLiteral t of
                 Some n \<Rightarrow> n
               | None \<Rightarrow> (case StrDecimalLiteral t of Some n \<Rightarrow> n | None \<Rightarrow> NaN)))"

subsection \<open>\<^verbatim>\<open>Set.prototype.has\<close> and the valid levels\<close>

text \<open>SameValueZero: \<open>NaN\<close> equals itself and the two zeros are equal.\<close>

definition SameValueZero :: "number \<Rightarrow> number \<Rightarrow> bool" where
  "SameValueZero x y \<longleftrightarrow> x = y \<or> (mv x = Some 0 \<and> mv y = Some 0)"

definition has :: "number list \<Rightarrow> number \<Rightarrow> bool" where
  "has s x = list_ex (SameValueZero x) s"

definition VALID_LEVELS :: "number list" where
  "VALID_LEVELS = [Val 0, Val 1, Val 2, Val 3]"

subsection \<open>Plain objects as dictionaries\<close>

text \<open>
  \<^verbatim>\<open>formData\<close> and \<^verbatim>\<open>ownership\<close> are plain objects, created by \<^verbatim>\<open>{}\<close> and used as
  dictionaries. An object is modelled by the list of its entries (its own properties) in
  enumeration order, whose keys are distinct. The assignment \<^verbatim>\<open>obj[key] = v\<close> of a string
  or a number replaces the value of an existing key and appends a new key, except for the
  key \<^verbatim>\<open>__proto__\<close>: there the assignment runs the setter of \<^verbatim>\<open>Object.prototype\<close>,
  which ignores a value that is neither an object nor \<^verbatim>\<open>null\<close>, and no entry is created.
\<close>

definition assign :: "jsstring \<Rightarrow> 'v \<Rightarrow> (jsstring \<times> 'v) list \<Rightarrow> (jsstring \<times> 'v) list" where
  "assign key v obj = (if key = str ''__proto__'' then obj else AList.update key v obj)"

subsection \<open>Reading the form (lines 96 to 102)\<close>

text \<open>
  The submit handler builds \<^verbatim>\<open>formData\<close> from the \<^verbatim>\<open>select\<close> elements of the form, each
  given by its \<^verbatim>\<open>name\<close> and its \<^verbatim>\<open>value\<close>, which are strings; an element whose name is
  the empty string is skipped. The result lists the entries in the order of their creation;
  \<^verbatim>\<open>Object.entries\<close> enumerates the same entries, keys that are array indices first.
\<close>

fun formData_loop ::
  "(jsstring \<times> jsstring) list \<Rightarrow> (jsstring \<times> jsstring) list \<Rightarrow> (jsstring \<times> jsstring) list" where
  "formData_loop [] formData = formData"
| "formData_loop ((name, val) # selects) formData =
     (if name \<noteq> [] then formData_loop selects (assign name val formData)
      else formData_loop selects formData)"

definition readFormData :: "(jsstring \<times> jsstring) list \<Rightarrow> (jsstring \<times> jsstring) list" where
  "readFormData selects = formData_loop selects []"

subsection \<open>Building the ownership object (lines 129 to 140)\<close>

text \<open>
  The loop runs over \<^verbatim>\<open>Object.entries(formData)\<close>, the list of the entries of
  \<^verbatim>\<open>formData\<close>; line 139 is the assignment \<^verbatim>\<open>ownership[key] = level\<close>.
\<close>

type_synonym ownership = "(jsstring \<times> number) list"

fun ownership_loop :: "(jsstring \<times> jsstring) list \<Rightarrow> ownership \<Rightarrow> ownership" where
  "ownership_loop [] ownership = ownership"
| "ownership_loop ((key, val) # entries) ownership =
     (let level = Number val
      in if \<not> has VALID_LEVELS level then ownership_loop entries ownership
         else ownership_loop entries (assign key level ownership))"

definition buildOwnership :: "(jsstring \<times> jsstring) list \<Rightarrow> ownership" where
  "buildOwnership formData = ownership_loop formData []"

subsection \<open>Folders and the objects around them\<close>

text \<open>
  Objects of the host are kept in a heap addressed by references, since the traversal
  follows references and the host's folder graph is not a tree by construction. Of an
  object only the properties the module reads are kept: whether it is an instance of
  \<^verbatim>\<open>Folder\<close>, its property \<^verbatim>\<open>folder\<close> (a folder has its parent there, a node of the
  directory tree has the folder it stands for), its \<^verbatim>\<open>children\<close> and its \<^verbatim>\<open>contents\<close>;
  \<open>None\<close> stands for \<^verbatim>\<open>null\<close> or \<^verbatim>\<open>undefined\<close>. A document is identified with its
  \<^verbatim>\<open>id\<close>.
\<close>

type_synonym ref = nat

record obj =
  isFolder :: bool
  folder :: "ref option"
  children :: "ref list option"
  contents :: "jsstring list option"

type_synonym heap = "ref \<Rightarrow> obj"

text \<open>\<^verbatim>\<open>c.folder ?? c\<close>\<close>

definition resolve :: "heap \<Rightarrow> ref \<Rightarrow> ref" where
  "resolve h c = (case folder (h c) of Some f \<Rightarrow> f | None \<Rightarrow> c)"

text \<open>\<^verbatim>\<open>(f.children ?? []).map((c) => c.folder ?? c)\<close>\<close>

definition kids :: "heap \<Rightarrow> ref \<Rightarrow> ref list" where
  "kids h f = map (resolve h) (case children (h f) of Some cs \<Rightarrow> cs | None \<Rightarrow> [])"

text \<open>\<^verbatim>\<open>f.contents ?? []\<close>\<close>

definition docs :: "heap \<Rightarrow> ref \<Rightarrow> jsstring list" where
  "docs h f = (case contents (h f) of Some ds \<Rightarrow> ds | None \<Rightarrow> [])"

subsection \<open>\<^verbatim>\<open>_getSubfoldersManual\<close> (lines 206 to 218)\<close>

text \<open>
  The \<^verbatim>\<open>while\<close> loop over the array \<^verbatim>\<open>stack\<close>: \<^verbatim>\<open>pop\<close> takes the last element,
  \<^verbatim>\<open>push\<close> appends. The loop has no bound of its own, so it is a partial function: \<open>None\<close>
  means that it does not return.
\<close>

partial_function (option) manual_loop :: "heap \<Rightarrow> ref list \<Rightarrow> ref list \<Rightarrow> ref list option" where
  "manual_loop h stack result =
     (if stack = [] then Some result
      else if \<not> isFolder (h (last stack)) then manual_loop h (butlast stack) result
      else manual_loop h (butlast stack @ kids h (last stack)) (result @ [last stack]))"

definition getSubfoldersManual :: "heap \<Rightarrow> ref \<Rightarrow> ref list option" where
  "getSubfoldersManual h root' = manual_loop h (kids h root') []"

subsection \<open>\<^verbatim>\<open>_cascadeOwnership\<close> (lines 124 to 201)\<close>

text \<open>
  The host is reached through three collaborators, which are parameters of the model:
  the method \<^verbatim>\<open>folder.getSubfolders(true)\<close>, which returns an array of folders or throws;
  \<^verbatim>\<open>docClass.updateDocuments(allUpdates)\<close>, which acts on the state of the document store
  and resolves or rejects; and the notifications and the console. What the function does to
  them is recorded as a list of events, in order. The function itself returns
  \<^verbatim>\<open>undefined\<close> on every path; the \<open>outcome\<close> names the \<^verbatim>\<open>return\<close> that was reached.
  The calls of \<^verbatim>\<open>LOG\<close> are left out.
\<close>

datatype error = Thrown jsstring

type_synonym update = "jsstring \<times> ownership"

datatype notification = NoDocuments | ErrorCascade | SuccessCascade nat int

datatype event =
    GetSubfolders ref
  | ManualTraversal ref
  | ReadContents ref
  | UpdateDocuments "update list"
  | ConsoleError error
  | NotifyInfo notification
  | NotifyError notification

datatype outcome =
    NothingToApply
  | NoDocumentsFound
  | Failure error
  | Success nat int

text \<open>Lines 149 to 156: the target folder, then its sub-folders from either strategy.\<close>

definition collectFolders ::
  "heap \<Rightarrow> (ref \<Rightarrow> error + ref list) \<Rightarrow> ref \<Rightarrow> (ref list \<times> event list) option" where
  "collectFolders h getSubfolders target =
     (case getSubfolders target of
        Inr subs \<Rightarrow> Some ([target] @ subs, [GetSubfolders target])
      | Inl err \<Rightarrow>
          (case getSubfoldersManual h target of
             None \<Rightarrow> None
           | Some subs \<Rightarrow>
               Some ([target] @ subs, [GetSubfolders target, ManualTraversal target])))"

text \<open>Lines 162 to 170: one update per document of every folder, each with the same ownership.\<close>

definition collectUpdates :: "heap \<Rightarrow> ownership \<Rightarrow> ref list \<Rightarrow> update list" where
  "collectUpdates h ownership allFolders =
     foldl (\<lambda>allUpdates f. foldl (\<lambda>allUpdates d. allUpdates @ [(d, ownership)]) allUpdates (docs h f))
       [] allFolders"

definition cascadeOwnership ::
  "heap \<Rightarrow> (ref \<Rightarrow> error + ref list) \<Rightarrow> ('st \<Rightarrow> update list \<Rightarrow> 'st \<times> error option) \<Rightarrow>
     ref \<Rightarrow> (jsstring \<times> jsstring) list \<Rightarrow> 'st \<Rightarrow> (outcome \<times> event list \<times> 'st) option" where
  "cascadeOwnership h getSubfolders updateDocuments target formData st =
     (let ownership = buildOwnership formData
      in if ownership = [] then Some (NothingToApply, [], st)
         else
           (case collectFolders h getSubfolders target of
              None \<Rightarrow> None
            | Some (allFolders, enumerated) \<Rightarrow>
                let allUpdates = collectUpdates h ownership allFolders;
                    events = enumerated @ map ReadContents allFolders
                in if allUpdates = [] then
                     Some (NoDocumentsFound, events @ [NotifyInfo NoDocuments], st)
                   else
                     (case updateDocuments st allUpdates of
                        (st', Some err) \<Rightarrow>
                          Some (Failure err,
                                events @ [UpdateDocuments allUpdates, ConsoleError err,
                                          NotifyError ErrorCascade],
                                st')
                      | (st', None) \<Rightarrow>
                          Some (Success (length allUpdates) (int (length allFolders) - 1),
                                events @ [UpdateDocuments allUpdates,
                                          NotifyInfo (SuccessCascade (length allUpdates)
                                                        (int (length allFolders) - 1))],
                                st'))))"

text \<open>The batches handed to the store, in order of the calls.\<close>

fun store_calls :: "event list \<Rightarrow> update list list" where
  "store_calls [] = []"
| "store_calls (UpdateDocuments batch # es) = batch # store_calls es"
| "store_calls (_ # es) = store_calls es"

subsection \<open>The container tree of the host\<close>

text \<open>
  The containers of the host form a tree through the parents of the folders: the property
  \<^verbatim>\<open>folder\<close> of a folder is its parent. A child-container edge leads from a folder to a
  folder whose parent it is; this relation does not depend on the property
  \<^verbatim>\<open>children\<close>, which the manual traversal reads. The containers reachable from a folder
  are those at the end of a path of such edges, the folder included; its descendants are
  those at the end of a path of at least one edge.
\<close>

definition container_edge :: "heap \<Rightarrow> (ref \<times> ref) set" where
  "container_edge h = {(f, c). isFolder (h f) \<and> isFolder (h c) \<and> folder (h c) = Some f}"

definition reachable :: "heap \<Rightarrow> ref \<Rightarrow> ref set" where
  "reachable h r = {c. (r, c) \<in> (container_edge h)\<^sup>*}"

definition descendants :: "heap \<Rightarrow> ref \<Rightarrow> ref set" where
  "descendants h r = {c. (r, c) \<in> (container_edge h)\<^sup>+}"

datatype ftree = FNode ref "ftree list"

fun root_of :: "ftree \<Rightarrow> ref" where
  "root_of (FNode r ts) = r"

fun nodes :: "ftree \<Rightarrow> ref list" where
  "nodes (FNode r ts) = r # concat (map nodes ts)"

text \<open>
  \<open>t\<close> is the tree of the containers below its root: the sub-trees of a node are the trees
  below the folders whose parent the node is. The containers form a tree when, moreover, no
  folder occurs twice in \<open>t\<close>.
\<close>

fun container_tree :: "heap \<Rightarrow> ftree \<Rightarrow> bool" where
  "container_tree h (FNode r ts) \<longleftrightarrow>
     isFolder (h r)
     \<and> root_of ` set ts = {c. (r, c) \<in> container_edge h}
     \<and> (\<forall>t \<in> set ts. container_tree h t)"

subsection \<open>The references that the manual traversal follows\<close>

text \<open>
  The manual traversal goes from a folder to \<^verbatim>\<open>child.folder ?? child\<close> for every entry of
  its \<^verbatim>\<open>children\<close> (\<open>kids\<close>). \<open>t\<close> is the unfolding of these references below its root: a
  node for the folder and, in the order of its children, the unfoldings below those
  resolved children that are folders. There is such a finite tree exactly when following
  the references from the root never runs into a cycle. Where \<^verbatim>\<open>children\<close> holds nodes of
  the directory tree, whose \<^verbatim>\<open>folder\<close> is the sub-folder, the unfolding is the container
  tree; where \<^verbatim>\<open>children\<close> holds the sub-folders themselves, each of which has its parent
  in \<^verbatim>\<open>folder\<close>, every child resolves to the folder itself and there is no finite unfolding.
\<close>

fun is_unfolding :: "heap \<Rightarrow> ftree \<Rightarrow> bool" where
  "is_unfolding h (FNode r ts) \<longleftrightarrow>
     isFolder (h r)
     \<and> map root_of ts = filter (\<lambda>c. isFolder (h c)) (kids h r)
     \<and> (\<forall>t \<in> set ts. is_unfolding h t)"

text \<open>The order in which the loop of the manual traversal meets the folders of a tree.\<close>

fun visit :: "ftree \<Rightarrow> ref list" where
  "visit (FNode r ts) = r # concat (map visit (rev ts))"

subsection \<open>When the enumeration returns\<close>

text \<open>
  The enumeration of lines 149 to 156 returns when the host method returns, and, when the
  host method throws, when the references that the manual traversal follows below the
  target unfold to a finite tree \<open>t\<close>.
\<close>

definition enumerable :: "heap \<Rightarrow> (ref \<Rightarrow> error + ref list) \<Rightarrow> ref \<Rightarrow> ftree \<Rightarrow> bool" where
  "enumerable h getSubfolders target t \<longleftrightarrow>
     (case getSubfolders target of
        Inr subs \<Rightarrow> True
      | Inl err \<Rightarrow> is_unfolding h t \<and> root_of t = target)"

subsection \<open>The primary strategy and the store\<close>

text \<open>
  Modelled from the spec: the host method \<^verbatim>\<open>getSubfolders(true)\<close> is not part of the
  repository. The spec describes it as a method to enumerate all descendant containers
  recursively, which may be absent or throw. On the container tree the enumeration is: the
  sub-folders of the folder, then the enumeration below each of them.
\<close>

fun getSubfolders_recursive :: "ftree \<Rightarrow> ref list" where
  "getSubfolders_recursive (FNode r ts) = map root_of ts @ concat (map getSubfolders_recursive ts)"


text \<open>
  Modelled from the spec: a store that records only the final ownership of each document.
  The batch call overwrites the ownership of every document named in the batch, in order,
  and does not fail. The host's own \<^verbatim>\<open>updateDocuments\<close> is not part of the repository.
\<close>

type_synonym store = "jsstring \<Rightarrow> ownership option"

definition recording_store :: "store \<Rightarrow> update list \<Rightarrow> store \<times> error option" where
  "recording_store st batch = (foldl (\<lambda>s (d, ownership). s(d \<mapsto> ownership)) st batch, None)"

subsection \<open>Example inputs\<close>

text \<open>
  Scenario A of the spec, the form data of scenario B, form data whose values are all
  sentinels (scenario C), and form data with an empty and a blank value.
\<close>

definition formData_A :: "(jsstring \<times> jsstring) list" where
  "formData_A = [(str ''default'', str ''2''), (str ''user1'', str ''-1'')]"

definition formData_B :: "(jsstring \<times> jsstring) list" where
  "formData_B = [(str ''default'', str ''3'')]"

definition formData_C :: "(jsstring \<times> jsstring) list" where
  "formData_C = [(str ''default'', str ''-1''), (str ''user1'', str ''inherit'')]"

definition formData_blank :: "(jsstring \<times> jsstring) list" where
  "formData_blank = [(str ''default'', []), (str ''user1'', [32, 9, 160])]"

text \<open>An object without any of the properties read by the module.\<close>

definition plain_object :: obj where
  "plain_object = \<lparr>isFolder = False, folder = None, children = None, contents = None\<rparr>"

text \<open>Two folders that have each other as child.\<close>

definition heap_cyclic :: heap where
  "heap_cyclic = (\<lambda>r. plain_object)
     (10 := \<lparr>isFolder = True, folder = None, children = Some [11], contents = Some []\<rparr>,
      11 := \<lparr>isFolder = True, folder = None, children = Some [10], contents = Some []\<rparr>)"

text \<open>
  Scenario B of the spec, in the layout of the hosts that the module names as supported:
  folder 10 holds two documents and the sub-folder 11, which holds three documents and the
  empty sub-folder 12. The children of a folder are nodes of the directory tree (21, 22)
  whose property \<^verbatim>\<open>folder\<close> is the sub-folder; the property \<^verbatim>\<open>folder\<close> of a folder is its
  parent.
\<close>

definition heap_B :: heap where
  "heap_B = (\<lambda>r. plain_object)
     (10 := \<lparr>isFolder = True, folder = None, children = Some [21],
             contents = Some [str ''a'', str ''b'']\<rparr>,
      11 := \<lparr>isFolder = True, folder = Some 10, children = Some [22],
             contents = Some [str ''c'', str ''d'', str ''e'']\<rparr>,
      12 := \<lparr>isFolder = True, folder = Some 11, children = Some [], contents = Some []\<rparr>,
      21 := \<lparr>isFolder = False, folder = Some 11, children = Some [22], contents = None\<rparr>,
      22 := \<lparr>isFolder = False, folder = Some 12, children = Some [], contents = None\<rparr>)"

definition tree_B :: ftree where
  "tree_B = FNode 10 [FNode 11 [FNode 12 []]]"

text \<open>
  References without cycle that do not form a tree: the folders 11 and 12 share the child 13;
  the children are the folders themselves, which have no property \<^verbatim>\<open>folder\<close>.
\<close>

definition heap_dag :: heap where
  "heap_dag = (\<lambda>r. plain_object)
     (10 := \<lparr>isFolder = True, folder = None, children = Some [11, 12], contents = None\<rparr>,
      11 := \<lparr>isFolder = True, folder = None, children = Some [13], contents = None\<rparr>,
      12 := \<lparr>isFolder = True, folder = None, children = Some [13], contents = None\<rparr>,
      13 := \<lparr>isFolder = True, folder = None, children = None, contents = None\<rparr>)"

definition tree_dag :: ftree where
  "tree_dag = FNode 10 [FNode 11 [FNode 13 []], FNode 12 [FNode 13 []]]"



text \<open>A host without \<^verbatim>\<open>getSubfolders\<close>, a store that accepts and a store that rejects.\<close>

definition throwing :: "ref \<Rightarrow> error + ref list" where
  "throwing f = Inl (Thrown (str ''getSubfolders is not a function''))"

definition accepting :: "unit \<Rightarrow> update list \<Rightarrow> unit \<times> error option" where
  "accepting st batch = (st, None)"

definition rejecting :: "unit \<Rightarrow> update list \<Rightarrow> unit \<times> error option" where
  "rejecting st batch = (st, Some (Thrown (str ''permission denied'')))"

section \<open>Properties\<close>

subsection \<open>Building the ownership object\<close>

lemma has_VALID_LEVELS_iff:
  "has VALID_LEVELS x \<longleftrightarrow> mv x \<in> {Some 0, Some 1, Some 2, Some 3}"
  by (cases x) (auto simp: has_def VALID_LEVELS_def SameValueZero_def)

lemma map_of_assign:
  "map_of (assign k' v obj) k =
     (if k' \<noteq> str ''__proto__'' \<and> k = k' then Some v else map_of obj k)"
  by (simp add: assign_def update_conv')

lemma distinct_assign: "distinct (map fst obj) \<Longrightarrow> distinct (map fst (assign k v obj))"
  by (simp add: assign_def distinct_update)

lemma keys_assign:
  "fst ` set (assign k v obj) = (if k = str ''__proto__'' then {} else {k}) \<union> fst ` set obj"
  by (simp add: assign_def dom_update)

lemma ownership_loop_lookup:
  "distinct (map fst entries) \<Longrightarrow>
   map_of (ownership_loop entries own) k =
     (case map_of entries k of
        None \<Rightarrow> map_of own k
      | Some v \<Rightarrow>
          if k \<noteq> str ''__proto__'' \<and> has VALID_LEVELS (Number v) then Some (Number v)
          else map_of own k)"
proof (induction entries arbitrary: own)
  case Nil
  then show ?case by simp
next
  case (Cons e entries)
  obtain k' v' where e: "e = (k', v')" by (cases e)
  from Cons.prems e have fresh: "map_of entries k' = None" and d: "distinct (map fst entries)"
    by (auto simp: map_of_eq_None_iff)
  note IH = Cons.IH[OF d]
  show ?case
  proof (cases "has VALID_LEVELS (Number v')")
    case False
    then have "ownership_loop (e # entries) own = ownership_loop entries own"
      by (simp add: e)
    then show ?thesis
      using IH[of own] fresh False by (cases "k = k'") (simp_all add: e)
  next
    case True
    then have "ownership_loop (e # entries) own
                 = ownership_loop entries (assign k' (Number v') own)"
      by (simp add: e)
    then show ?thesis
      using IH[of "assign k' (Number v') own"] fresh True
      by (cases "k = k'") (simp_all add: e map_of_assign split: option.splits)
  qed
qed

lemma ownership_loop_distinct:
  "distinct (map fst own) \<Longrightarrow> distinct (map fst (ownership_loop entries own))"
  by (induction entries arbitrary: own) (auto simp: Let_def distinct_assign)

lemma formData_loop_keys:
  "distinct (map fst formData) \<Longrightarrow> str ''__proto__'' \<notin> fst ` set formData \<Longrightarrow>
   distinct (map fst (formData_loop selects formData))
   \<and> str ''__proto__'' \<notin> fst ` set (formData_loop selects formData)"
proof (induction selects arbitrary: formData)
  case Nil
  then show ?case by simp
next
  case (Cons sel selects)
  obtain name v where sel: "sel = (name, v)" by (cases sel)
  from Cons.prems have "distinct (map fst (assign name v formData))"
    and "str ''__proto__'' \<notin> fst ` set (assign name v formData)"
    by (simp_all add: distinct_assign keys_assign)
  with Cons.IH[of "assign name v formData"] Cons.IH[of formData] Cons.prems
  show ?case by (simp add: sel)
qed

text \<open>
  The entries of the form data that the submit handler hands to \<^verbatim>\<open>_cascadeOwnership\<close>, in
  whatever order they are enumerated, have distinct keys, none of which is \<^verbatim>\<open>__proto__\<close>.
\<close>

lemma readFormData_entries:
  assumes "mset entries = mset (readFormData selects)"
  shows "distinct (map fst entries) \<and> str ''__proto__'' \<notin> fst ` set entries"
proof -
  have r: "distinct (map fst (readFormData selects))"
    "str ''__proto__'' \<notin> fst ` set (readFormData selects)"
    using formData_loop_keys[of "[]" selects] by (simp_all add: readFormData_def)
  have "mset (map fst entries) = mset (map fst (readFormData selects))"
    using arg_cong[OF assms, of "image_mset fst"] by simp
  then have "distinct (map fst entries) = distinct (map fst (readFormData selects))"
    by (rule mset_eq_imp_distinct_iff)
  moreover from assms have "set entries = set (readFormData selects)"
    by (rule mset_eq_setD)
  ultimately show ?thesis using r by simp
qed

lemma trim_whitespace:
  assumes "\<forall>c \<in> set s. StrWhiteSpaceChar c"
  shows "trim s = []"
  using assms by (auto simp: trim_def dest: set_dropWhileD)

lemma Number_whitespace: "\<forall>c \<in> set s. StrWhiteSpaceChar c \<Longrightarrow> Number s = Val 0"
  by (simp add: Number_def trim_whitespace)

lemmas Number_defs = Number_def str_def trim_def StrWhiteSpaceChar_def NonDecimalIntegerLiteral_def
  StrDecimalLiteral_def StrUnsignedDecimalLiteral_def DecimalDigit_def digit_value_def Digits_def
  ExponentPart_def SignedInteger_def round_double_def ilog2_def round_half_even_def compute_floorlog

lemma Number_2: "Number (str ''2'') = Val 2"
  by (simp add: Number_defs)

lemma Number_m1: "Number (str ''-1'') = Val (- 1)"
  by (simp add: Number_defs)

lemma Number_3: "Number (str ''3'') = Val 3"
  by (simp add: Number_defs)

lemma Number_inherit: "Number (str ''inherit'') = NaN"
  by (simp add: Number_defs)

lemmas level_defs = has_def VALID_LEVELS_def SameValueZero_def

lemma default_not_proto: "str ''default'' \<noteq> str ''__proto__''"
  by (simp add: str_def)

lemma ownership_A: "buildOwnership formData_A = [(str ''default'', Val 2)]"
  by (simp add: buildOwnership_def formData_A_def Number_2 Number_m1 level_defs assign_def
      default_not_proto)

lemma ownership_B: "buildOwnership formData_B = [(str ''default'', Val 3)]"
  by (simp add: buildOwnership_def formData_B_def Number_3 level_defs assign_def
      default_not_proto)

lemma ownership_C: "buildOwnership formData_C = []"
  by (simp add: buildOwnership_def formData_C_def Number_m1 Number_inherit level_defs)

text \<open>
  C1: for every raw form-data object (its entries have distinct keys, none of which is
  \<^verbatim>\<open>__proto__\<close>, as for every object that the submit handler builds), the ownership
  object holds exactly the keys whose string value \<^verbatim>\<open>Number\<close> converts to a number equal
  to 0, 1, 2 or 3, each with that number; a key whose value converts to another number or to
  \<open>NaN\<close> is absent. (The string \<^verbatim>\<open>-0\<close> converts to the negative zero, which is equal
  to 0.)
\<close>

theorem buildOwnership_valid_levels:
  assumes "distinct (map fst formData)"
    and "str ''__proto__'' \<notin> fst ` set formData"
  shows "map_of (buildOwnership formData) key =
           (case map_of formData key of
              None \<Rightarrow> None
            | Some val \<Rightarrow>
                if mv (Number val) \<in> {Some 0, Some 1, Some 2, Some 3} then Some (Number val)
                else None)
         \<and> distinct (map fst (buildOwnership formData))"
proof -
  have "key \<noteq> str ''__proto__''" if "map_of formData key = Some val" for val
  proof -
    from that have "(key, val) \<in> set formData" by (rule map_of_SomeD)
    then have "fst (key, val) \<in> fst ` set formData" by (rule imageI)
    then have "key \<in> fst ` set formData" by simp
    with assms(2) show ?thesis by blast
  qed
  then show ?thesis
    using assms(1)
    by (simp add: buildOwnership_def ownership_loop_lookup ownership_loop_distinct
        has_VALID_LEVELS_iff split: option.splits)
qed

theorem buildOwnership_valid_levels_witness:
  "distinct (map fst formData_A)
   \<and> str ''__proto__'' \<notin> fst ` set formData_A
   \<and> map_of (buildOwnership formData_A) (str ''default'') = Some (Val 2)
   \<and> map_of (buildOwnership formData_A) (str ''user1'') = None"
proof -
  have d: "distinct (map fst formData_A)"
    by (simp add: formData_A_def str_def)
  have np: "str ''__proto__'' \<notin> fst ` set formData_A"
    by (simp add: formData_A_def str_def)
  have ne: "str ''user1'' \<noteq> str ''default''"
    by (simp add: str_def)
  show ?thesis
    using d np buildOwnership_valid_levels[OF d np, of "str ''default''"]
      buildOwnership_valid_levels[OF d np, of "str ''user1''"] ne
    by (simp add: formData_A_def Number_2 Number_m1)
qed

text \<open>
  C10: a key (other than \<^verbatim>\<open>__proto__\<close>, which is the key of no entry of a form-data
  object) whose value is the empty string, or consists of white space only, is in the
  ownership object with level 0, since \<^verbatim>\<open>Number\<close> converts such a string to 0.
\<close>

theorem empty_string_is_level_0:
  assumes "distinct (map fst formData)"
    and "(key, val) \<in> set formData"
    and "key \<noteq> str ''__proto__''"
    and "\<forall>c \<in> set val. StrWhiteSpaceChar c"
  shows "map_of (buildOwnership formData) key = Some (Val 0)"
proof -
  from assms(1,2) have "map_of formData key = Some val" by simp
  moreover from assms(4) have "Number val = Val 0" by (rule Number_whitespace)
  ultimately show ?thesis
    using assms(1,3)
    by (simp add: buildOwnership_def ownership_loop_lookup has_VALID_LEVELS_iff)
qed

theorem empty_string_is_level_0_witness:
  "distinct (map fst formData_blank)
   \<and> map_of (buildOwnership formData_blank) (str ''default'') = Some (Val 0)
   \<and> map_of (buildOwnership formData_blank) (str ''user1'') = Some (Val 0)"
proof -
  have d: "distinct (map fst formData_blank)"
    by (simp add: formData_blank_def str_def)
  have m1: "(str ''default'', []) \<in> set formData_blank"
    and m2: "(str ''user1'', [32, 9, 160]) \<in> set formData_blank"
    by (simp_all add: formData_blank_def)
  have n1: "str ''default'' \<noteq> str ''__proto__''"
    and n2: "str ''user1'' \<noteq> str ''__proto__''"
    by (simp_all add: str_def)
  have w1: "\<forall>c \<in> set []. StrWhiteSpaceChar c"
    by simp
  have w2: "\<forall>c \<in> set [32, 9, 160]. StrWhiteSpaceChar c"
    by (simp add: StrWhiteSpaceChar_def)
  from empty_string_is_level_0[OF d m1 n1 w1] empty_string_is_level_0[OF d m2 n2 w2] d
  show ?thesis by blast
qed

subsection \<open>The manual traversal\<close>

lemma manual_loop_empty: "manual_loop h [] result = Some result"
  by (subst manual_loop.simps) simp

lemma manual_loop_skip:
  "\<not> isFolder (h f) \<Longrightarrow> manual_loop h (stack @ [f]) result = manual_loop h stack result"
  by (subst manual_loop.simps) simp

lemma manual_loop_push:
  "isFolder (h f) \<Longrightarrow>
   manual_loop h (stack @ [f]) result = manual_loop h (stack @ kids h f) (result @ [f])"
  by (subst manual_loop.simps) simp

lemma manual_loop_children:
  assumes sub: "\<And>t stack result. t \<in> set ts \<Longrightarrow>
      manual_loop h (stack @ [root_of t]) result = manual_loop h stack (result @ visit t)"
    and cs: "map root_of ts = filter (\<lambda>c. isFolder (h c)) cs"
  shows "manual_loop h (stack @ cs) result
           = manual_loop h stack (result @ concat (map visit (rev ts)))"
  using assms
proof (induction cs arbitrary: ts result rule: rev_induct)
  case Nil
  then show ?case by simp
next
  case (snoc c cs)
  show ?case
  proof (cases "isFolder (h c)")
    case False
    with snoc.prems(2) have "map root_of ts = filter (\<lambda>c. isFolder (h c)) cs" by simp
    from snoc.IH[OF snoc.prems(1) this] False show ?thesis
      using manual_loop_skip[of h c "stack @ cs"] by simp
  next
    case True
    with snoc.prems(2)
    have "map root_of ts = filter (\<lambda>c. isFolder (h c)) cs @ [c]" by simp
    then obtain ts' t where ts: "ts = ts' @ [t]"
      and ts': "map root_of ts' = filter (\<lambda>c. isFolder (h c)) cs" and t: "root_of t = c"
      by (cases ts rule: rev_cases) auto
    have "manual_loop h (stack @ cs @ [c]) result
            = manual_loop h (stack @ cs) (result @ visit t)"
      using snoc.prems(1)[of t "stack @ cs" result] by (simp add: ts t)
    also have "\<dots> = manual_loop h stack ((result @ visit t) @ concat (map visit (rev ts')))"
      by (rule snoc.IH[OF _ ts']) (simp add: snoc.prems(1) ts)
    finally show ?thesis by (simp add: ts)
  qed
qed

lemma manual_loop_subtree:
  "is_unfolding h t \<Longrightarrow>
   manual_loop h (stack @ [root_of t]) result = manual_loop h stack (result @ visit t)"
proof (induction t arbitrary: stack result)
  case (FNode r ts)
  from FNode.prems have r: "isFolder (h r)"
    and cs: "map root_of ts = filter (\<lambda>c. isFolder (h c)) (kids h r)"
    and sub: "\<And>t. t \<in> set ts \<Longrightarrow> is_unfolding h t"
    by simp_all
  have "manual_loop h (stack @ [r]) result = manual_loop h (stack @ kids h r) (result @ [r])"
    using r by (rule manual_loop_push)
  also have "\<dots> = manual_loop h stack ((result @ [r]) @ concat (map visit (rev ts)))"
    by (rule manual_loop_children[OF _ cs]) (simp add: FNode.IH sub)
  finally show ?case by simp
qed

lemma getSubfoldersManual_unfolding:
  assumes "is_unfolding h t"
  shows "getSubfoldersManual h (root_of t) = Some (tl (visit t))"
proof (cases t)
  case (FNode r ts)
  with assms have cs: "map root_of ts = filter (\<lambda>c. isFolder (h c)) (kids h r)"
    and sub: "\<And>t. t \<in> set ts \<Longrightarrow> is_unfolding h t"
    by simp_all
  have "manual_loop h ([] @ kids h r) [] = manual_loop h [] ([] @ concat (map visit (rev ts)))"
    by (rule manual_loop_children[OF _ cs]) (simp add: manual_loop_subtree sub)
  then show ?thesis
    by (simp add: getSubfoldersManual_def FNode manual_loop_empty)
qed


lemma root_in_nodes: "root_of t \<in> set (nodes t)"
  by (cases t) simp


lemma nodes_hd: "nodes t = root_of t # tl (nodes t)"
  by (cases t) simp

lemma sum_list_add_mset:
  "sum_list (map (\<lambda>t. add_mset (f t) (g t)) ts) = mset (map f ts) + sum_list (map g ts)"
  by (induction ts) simp_all

lemma mset_nodes_recursive:
  "mset (nodes t) = add_mset (root_of t) (mset (getSubfolders_recursive t))"
proof (induction t)
  case (FNode r ts)
  have "sum_list (map (\<lambda>t. mset (nodes t)) ts)
          = sum_list (map (\<lambda>t. add_mset (root_of t) (mset (getSubfolders_recursive t))) ts)"
    using FNode.IH by (intro arg_cong[where f = sum_list] map_cong) auto
  also have "\<dots> = mset (map root_of ts)
                    + sum_list (map (\<lambda>t. mset (getSubfolders_recursive t)) ts)"
    by (rule sum_list_add_mset)
  finally show ?case
    by (simp add: mset_concat comp_def)
qed

lemma container_tree_edge_closed:
  "container_tree h t \<Longrightarrow> x \<in> set (nodes t) \<Longrightarrow> (x, y) \<in> container_edge h \<Longrightarrow>
   y \<in> set (nodes t)"
proof (induction t)
  case (FNode r ts)
  from FNode.prems(1) have cs: "root_of ` set ts = {c. (r, c) \<in> container_edge h}"
    and sub: "\<And>t. t \<in> set ts \<Longrightarrow> container_tree h t"
    by simp_all
  show ?case
  proof (cases "\<exists>t \<in> set ts. x \<in> set (nodes t)")
    case True
    then obtain t where t: "t \<in> set ts" "x \<in> set (nodes t)" by blast
    from FNode.IH[OF t(1) sub[OF t(1)] t(2) FNode.prems(3)] t(1) show ?thesis by auto
  next
    case False
    with FNode.prems(2) have "x = r" by auto
    with FNode.prems(3) cs have "y \<in> root_of ` set ts" by simp
    then obtain t where "t \<in> set ts" "y = root_of t" by auto
    then show ?thesis using root_in_nodes[of t] by auto
  qed
qed

lemma container_tree_nodes_reachable:
  "container_tree h t \<Longrightarrow> x \<in> set (nodes t) \<Longrightarrow> (root_of t, x) \<in> (container_edge h)\<^sup>*"
proof (induction t)
  case (FNode r ts)
  from FNode.prems(1) have cs: "root_of ` set ts = {c. (r, c) \<in> container_edge h}"
    and sub: "\<And>t. t \<in> set ts \<Longrightarrow> container_tree h t"
    by simp_all
  show ?case
  proof (cases "x = r")
    case True
    then show ?thesis by simp
  next
    case False
    with FNode.prems(2) obtain t where t: "t \<in> set ts" "x \<in> set (nodes t)" by auto
    from t(1) have "root_of t \<in> root_of ` set ts" by simp
    with cs have "(r, root_of t) \<in> container_edge h" by simp
    moreover have "(root_of t, x) \<in> (container_edge h)\<^sup>*"
      by (rule FNode.IH[OF t(1) sub[OF t(1)] t(2)])
    ultimately show ?thesis by simp
  qed
qed

lemma reachable_container_tree:
  assumes "container_tree h t"
  shows "reachable h (root_of t) = set (nodes t)"
proof
  show "reachable h (root_of t) \<subseteq> set (nodes t)"
  proof
    fix x assume "x \<in> reachable h (root_of t)"
    then have "(root_of t, x) \<in> (container_edge h)\<^sup>*" by (simp add: reachable_def)
    then show "x \<in> set (nodes t)"
      by (induction rule: rtrancl_induct)
        (auto simp: root_in_nodes intro: container_tree_edge_closed[OF assms])
  qed
  show "set (nodes t) \<subseteq> reachable h (root_of t)"
    using container_tree_nodes_reachable[OF assms] by (auto simp: reachable_def)
qed

lemma descendants_container_tree:
  assumes "container_tree h t"
  shows "descendants h (root_of t) = set (tl (nodes t))"
proof (cases t)
  case (FNode r ts)
  with assms have cs: "root_of ` set ts = {c. (r, c) \<in> container_edge h}"
    and sub: "\<And>t. t \<in> set ts \<Longrightarrow> container_tree h t"
    by simp_all
  have edge: "(r, c) \<in> container_edge h \<longleftrightarrow> c \<in> root_of ` set ts" for c
    using cs by simp
  show ?thesis
  proof (intro set_eqI iffI)
    fix x assume "x \<in> descendants h (root_of t)"
    then have "(r, x) \<in> (container_edge h)\<^sup>+" by (simp add: descendants_def FNode)
    then obtain c where c: "(r, c) \<in> container_edge h" "(c, x) \<in> (container_edge h)\<^sup>*"
      by (auto dest: tranclD)
    from c(1) obtain t' where t': "t' \<in> set ts" "c = root_of t'" by (auto simp: edge)
    with c(2) have "x \<in> reachable h (root_of t')" by (simp add: reachable_def)
    then have "x \<in> set (nodes t')" by (simp add: reachable_container_tree[OF sub[OF t'(1)]])
    with t'(1) show "x \<in> set (tl (nodes t))" by (auto simp: FNode)
  next
    fix x assume "x \<in> set (tl (nodes t))"
    then obtain t' where t': "t' \<in> set ts" "x \<in> set (nodes t')" by (auto simp: FNode)
    then have "(root_of t', x) \<in> (container_edge h)\<^sup>*"
      using container_tree_nodes_reachable[OF sub[OF t'(1)]] by simp
    moreover from t'(1) have "(r, root_of t') \<in> container_edge h" by (simp add: edge)
    ultimately show "x \<in> descendants h (root_of t)"
      by (simp add: descendants_def FNode)
  qed
qed

text \<open>
  The recursive enumeration on the container tree yields the descendant containers of the
  root, as the spec says of the host method.
\<close>

lemma getSubfolders_recursive_descendants:
  assumes "container_tree h t"
  shows "set (getSubfolders_recursive t) = descendants h (root_of t)"
proof -
  have "mset (nodes t) = mset (root_of t # getSubfolders_recursive t)"
    by (simp add: mset_nodes_recursive)
  moreover have "mset (nodes t) = mset (root_of t # tl (nodes t))"
    by (simp add: nodes_hd[symmetric])
  ultimately have "mset (getSubfolders_recursive t) = mset (tl (nodes t))"
    by simp
  then have "set (getSubfolders_recursive t) = set (tl (nodes t))"
    by (rule mset_eq_setD)
  then show ?thesis
    by (simp add: descendants_container_tree[OF assms])
qed

lemma kids_cyclic: "kids heap_cyclic 10 = [11]" "kids heap_cyclic 11 = [10]"
  by (simp_all add: heap_cyclic_def kids_def resolve_def)

lemma isFolder_cyclic: "isFolder (heap_cyclic 10)" "isFolder (heap_cyclic 11)"
  by (simp_all add: heap_cyclic_def)

lemma manual_loop_cyclic_aux:
  assumes "manual_loop h stack result = Some y"
  shows "\<not> (h = heap_cyclic \<and> (stack = [10] \<or> stack = [11]))"
proof (rule manual_loop.raw_induct
    [where P = "\<lambda>h stack result y. \<not> (h = heap_cyclic \<and> (stack = [10] \<or> stack = [11]))",
      OF _ assms])
  fix loop :: "heap \<Rightarrow> ref list \<Rightarrow> ref list \<Rightarrow> ref list option"
    and h stack result y
  assume IH: "\<And>h stack result y. loop h stack result = Some y \<Longrightarrow>
      \<not> (h = heap_cyclic \<and> (stack = [10] \<or> stack = [11]))"
    and step: "(if stack = [] then Some result
        else if \<not> isFolder (h (last stack)) then loop h (butlast stack) result
        else loop h (butlast stack @ kids h (last stack)) (result @ [last stack])) = Some y"
  show "\<not> (h = heap_cyclic \<and> (stack = [10] \<or> stack = [11]))"
  proof
    assume a: "h = heap_cyclic \<and> (stack = [10] \<or> stack = [11])"
    then consider "h = heap_cyclic" "stack = [10]" | "h = heap_cyclic" "stack = [11]" by blast
    then show False
    proof cases
      case 1
      with step have "loop heap_cyclic [11] (result @ [10]) = Some y"
        by (simp add: kids_cyclic isFolder_cyclic)
      from IH[OF this] show False by simp
    next
      case 2
      with step have "loop heap_cyclic [10] (result @ [11]) = Some y"
        by (simp add: kids_cyclic isFolder_cyclic)
      from IH[OF this] show False by simp
    qed
  qed
qed







lemma unfolding_dag: "is_unfolding heap_dag tree_dag"
  by (simp add: heap_dag_def tree_dag_def kids_def resolve_def plain_object_def)

lemma unfolding_B: "is_unfolding heap_B tree_B"
  by (simp add: heap_B_def tree_B_def kids_def resolve_def plain_object_def)

lemma docs_B:
  "docs heap_B 10 = [str ''a'', str ''b'']"
  "docs heap_B 11 = [str ''c'', str ''d'', str ''e'']"
  "docs heap_B 12 = []"
  by (simp_all add: docs_def heap_B_def)

lemma manual_B: "getSubfoldersManual heap_B 10 = Some [11, 12]"
  using getSubfoldersManual_unfolding[OF unfolding_B] by (simp add: tree_B_def)

lemma collect_B_fallback:
  "collectFolders heap_B throwing 10 = Some ([10, 11, 12], [GetSubfolders 10, ManualTraversal 10])"
  by (simp add: collectFolders_def throwing_def manual_B)

lemma collect_B_primary:
  "collectFolders heap_B (\<lambda>f. Inr [11, 12]) 10 = Some ([10, 11, 12], [GetSubfolders 10])"
  by (simp add: collectFolders_def)

lemma enumerable_B_fallback: "enumerable heap_B throwing 10 tree_B"
  by (simp add: enumerable_def throwing_def unfolding_B) (simp add: tree_B_def)

text \<open>
  C2, as amended: the manual traversal uses an explicit stack and has no guard against
  meeting a folder again. It returns for every graph in which the references that it
  follows, from a folder to \<^verbatim>\<open>child.folder ?? child\<close> for each entry of its
  \<^verbatim>\<open>children\<close>, run into no cycle below the root, that is, unfold to a finite tree.
\<close>

theorem getSubfoldersManual_terminates_acyclic:
  assumes "is_unfolding h t"
  shows "\<exists>subs. getSubfoldersManual h (root_of t) = Some subs"
  using getSubfoldersManual_unfolding[OF assms] by blast

theorem getSubfoldersManual_terminates_acyclic_witness:
  "is_unfolding heap_dag tree_dag \<and> (\<exists>subs. getSubfoldersManual heap_dag 10 = Some subs)"
proof -
  have r: "root_of tree_dag = 10"
    by (simp add: tree_dag_def)
  have "\<exists>subs. getSubfoldersManual heap_dag (root_of tree_dag) = Some subs"
    by (rule getSubfoldersManual_terminates_acyclic[OF unfolding_dag])
  then have "\<exists>subs. getSubfoldersManual heap_dag 10 = Some subs"
    by (simp only: r)
  with unfolding_dag show ?thesis by blast
qed

text \<open>
  The claim C2 as stated, for every container graph, fails: on two folders that have each
  other as child the loop does not return. Neither does it on a container tree without any
  cycle whose \<^verbatim>\<open>children\<close> hold the sub-folders themselves (\<open>manual_direct\<close>): there each
  child resolves to its parent, which is a cycle of the references that are followed.
\<close>

theorem getSubfoldersManual_cycle_diverges: "getSubfoldersManual heap_cyclic 10 = None"
proof (cases "getSubfoldersManual heap_cyclic 10")
  case None
  then show ?thesis .
next
  case (Some y)
  then have "manual_loop heap_cyclic [11] [] = Some y"
    by (simp add: getSubfoldersManual_def kids_cyclic)
  from manual_loop_cyclic_aux[OF this] show ?thesis by simp
qed

subsection \<open>The collected folders\<close>

lemma collectFolders_returns:
  assumes "enumerable h getSubfolders target t"
  shows "\<exists>subs ev. collectFolders h getSubfolders target = Some (target # subs, ev)
           \<and> store_calls ev = []"
proof (cases "getSubfolders target")
  case (Inr subs)
  then show ?thesis by (simp add: collectFolders_def)
next
  case (Inl err)
  with assms have "is_unfolding h t" "root_of t = target"
    by (simp_all add: enumerable_def)
  then have "getSubfoldersManual h target = Some (tl (visit t))"
    using getSubfoldersManual_unfolding[of h t] by simp
  with Inl show ?thesis by (simp add: collectFolders_def)
qed




subsection \<open>The cascade\<close>

lemma foldl_push: "foldl (\<lambda>acc d. acc @ [g d]) acc ds = acc @ map g ds"
  by (induction ds arbitrary: acc) simp_all

lemma collectUpdates_foldl:
  "foldl (\<lambda>acc f. foldl (\<lambda>acc d. acc @ [(d, ownership)]) acc (docs h f)) acc fs
     = acc @ concat (map (\<lambda>f. map (\<lambda>d. (d, ownership)) (docs h f)) fs)"
  by (induction fs arbitrary: acc) (simp_all add: foldl_push)

lemma collectUpdates_concat:
  "collectUpdates h ownership allFolders
     = concat (map (\<lambda>f. map (\<lambda>d. (d, ownership)) (docs h f)) allFolders)"
  by (simp add: collectUpdates_def collectUpdates_foldl)




lemma collectUpdates_empty_iff:
  "collectUpdates h ownership allFolders = [] \<longleftrightarrow> (\<forall>f \<in> set allFolders. docs h f = [])"
  by (simp add: collectUpdates_concat)

lemma store_calls_append: "store_calls (xs @ ys) = store_calls xs @ store_calls ys"
  by (induction xs rule: store_calls.induct) simp_all

lemma store_calls_reads: "store_calls (map ReadContents fs) = []"
  by (induction fs) simp_all

lemma cascade_empty:
  "buildOwnership formData = [] \<Longrightarrow>
   cascadeOwnership h getSubfolders updateDocuments target formData st = Some (NothingToApply, [], st)"
  by (simp add: cascadeOwnership_def)

lemma cascade_no_documents:
  "buildOwnership formData \<noteq> [] \<Longrightarrow>
   collectFolders h getSubfolders target = Some (allFolders, ev) \<Longrightarrow>
   collectUpdates h (buildOwnership formData) allFolders = [] \<Longrightarrow>
   cascadeOwnership h getSubfolders updateDocuments target formData st
     = Some (NoDocumentsFound, ev @ map ReadContents allFolders @ [NotifyInfo NoDocuments], st)"
  by (simp add: cascadeOwnership_def)

lemma cascade_failure:
  "buildOwnership formData \<noteq> [] \<Longrightarrow>
   collectFolders h getSubfolders target = Some (allFolders, ev) \<Longrightarrow>
   collectUpdates h (buildOwnership formData) allFolders = allUpdates \<Longrightarrow>
   allUpdates \<noteq> [] \<Longrightarrow>
   updateDocuments st allUpdates = (st', Some err) \<Longrightarrow>
   cascadeOwnership h getSubfolders updateDocuments target formData st
     = Some (Failure err,
             ev @ map ReadContents allFolders
               @ [UpdateDocuments allUpdates, ConsoleError err, NotifyError ErrorCascade],
             st')"
  by (simp add: cascadeOwnership_def)

lemma cascade_success:
  "buildOwnership formData \<noteq> [] \<Longrightarrow>
   collectFolders h getSubfolders target = Some (allFolders, ev) \<Longrightarrow>
   collectUpdates h (buildOwnership formData) allFolders = allUpdates \<Longrightarrow>
   allUpdates \<noteq> [] \<Longrightarrow>
   updateDocuments st allUpdates = (st', None) \<Longrightarrow>
   cascadeOwnership h getSubfolders updateDocuments target formData st
     = Some (Success (length allUpdates) (int (length allFolders) - 1),
             ev @ map ReadContents allFolders
               @ [UpdateDocuments allUpdates,
                  NotifyInfo (SuccessCascade (length allUpdates) (int (length allFolders) - 1))],
             st')"
  by (simp add: cascadeOwnership_def)

lemma store_calls_before:
  "store_calls ev = [] \<Longrightarrow> store_calls (ev @ map ReadContents fs @ es) = store_calls es"
  by (simp add: store_calls_append store_calls_reads)

lemma store_calls_no_documents:
  "store_calls ev = [] \<Longrightarrow>
   store_calls (ev @ map ReadContents fs @ [NotifyInfo NoDocuments]) = []"
  by (simp only: store_calls_before) simp

lemma store_calls_failure:
  "store_calls ev = [] \<Longrightarrow>
   store_calls (ev @ map ReadContents fs
                 @ [UpdateDocuments batch, ConsoleError err, NotifyError ErrorCascade]) = [batch]"
  by (simp only: store_calls_before) simp


lemma batch_B:
  "collectUpdates heap_B ownership [10, 11, 12]
     = [(str ''a'', ownership), (str ''b'', ownership), (str ''c'', ownership),
        (str ''d'', ownership), (str ''e'', ownership)]"
  by (simp add: collectUpdates_concat docs_B)

lemma collect_B_leaf:
  "collectFolders heap_B throwing 12 = Some ([12], [GetSubfolders 12, ManualTraversal 12])"
proof -
  have "manual_loop heap_B [] [] = Some []" by (rule manual_loop_empty)
  then have "getSubfoldersManual heap_B 12 = Some []"
    by (simp add: getSubfoldersManual_def kids_def heap_B_def)
  then show ?thesis by (simp add: collectFolders_def throwing_def)
qed

lemma ownership_B_nonempty: "buildOwnership formData_B \<noteq> []"
  by (simp add: ownership_B)

lemma recording_store_map_add:
  "foldl (\<lambda>s (d, ownership). s(d \<mapsto> ownership)) st batch = st ++ map_of (rev batch)"
proof (induction batch arbitrary: st)
  case Nil
  then show ?case by simp
next
  case (Cons u batch)
  obtain d ow where u: "u = (d, ow)" by (cases u)
  have "foldl (\<lambda>s (d, ownership). s(d \<mapsto> ownership)) st (u # batch)
          = foldl (\<lambda>s (d, ownership). s(d \<mapsto> ownership)) (st(d \<mapsto> ow)) batch"
    by (simp add: u)
  also have "\<dots> = st(d \<mapsto> ow) ++ map_of (rev batch)"
    by (rule Cons.IH)
  also have "\<dots> = st ++ map_of (rev (u # batch))"
    by (simp add: u map_add_def fun_eq_iff split: option.splits)
  finally show ?case .
qed

lemma recording_store_idem:
  "fst (recording_store (fst (recording_store st batch)) batch) = fst (recording_store st batch)"
  by (simp add: recording_store_def recording_store_map_add map_add_def fun_eq_iff
      split: option.splits)

text \<open>
  C4: when the ownership object built from the form data is empty, the cascade ends with
  the nothing-to-apply outcome, without any event (no enumeration of folders, no read of
  contents, no call of the store) and with the store unchanged, whatever the folder graph
  and the collaborators are.
\<close>

theorem empty_assignment_short_circuit:
  assumes "buildOwnership formData = []"
  shows "cascadeOwnership h getSubfolders updateDocuments target formData st
           = Some (NothingToApply, [], st)"
  using assms by (rule cascade_empty)

theorem empty_assignment_short_circuit_witness:
  "buildOwnership formData_C = []
   \<and> cascadeOwnership heap_cyclic throwing rejecting 10 formData_C () = Some (NothingToApply, [], ())"
  using empty_assignment_short_circuit[OF ownership_C, of heap_cyclic throwing rejecting 10 "()"]
    ownership_C
  by simp

text \<open>
  C5: when the ownership object is not empty and every collected folder has no document,
  the cascade notifies that no documents were found and does not call the store; this
  outcome differs from the nothing-to-apply outcome, which takes precedence when the
  ownership object is empty as well.
\<close>

theorem no_documents_outcome:
  assumes "enumerable h getSubfolders target t"
  shows "\<exists>allFolders ev.
           collectFolders h getSubfolders target = Some (allFolders, ev)
           \<and> ((\<forall>f \<in> set allFolders. docs h f = []) \<longrightarrow>
                cascadeOwnership h getSubfolders updateDocuments target formData st
                  = (if buildOwnership formData = [] then Some (NothingToApply, [], st)
                     else Some (NoDocumentsFound,
                                ev @ map ReadContents allFolders @ [NotifyInfo NoDocuments], st))
                \<and> store_calls (ev @ map ReadContents allFolders @ [NotifyInfo NoDocuments]) = []
                \<and> NoDocumentsFound \<noteq> NothingToApply)"
proof -
  from collectFolders_returns[OF assms] obtain subs ev
    where c: "collectFolders h getSubfolders target = Some (target # subs, ev)"
      and e: "store_calls ev = []"
    by blast
  have "cascadeOwnership h getSubfolders updateDocuments target formData st
          = (if buildOwnership formData = [] then Some (NothingToApply, [], st)
             else Some (NoDocumentsFound,
                        ev @ map ReadContents (target # subs) @ [NotifyInfo NoDocuments], st))"
    if "\<forall>f \<in> set (target # subs). docs h f = []"
  proof (cases "buildOwnership formData = []")
    case True
    then show ?thesis by (simp add: cascade_empty)
  next
    case False
    from that have "collectUpdates h (buildOwnership formData) (target # subs) = []"
      by (simp only: collectUpdates_empty_iff)
    from cascade_no_documents[OF False c this] False show ?thesis by simp
  qed
  moreover have "store_calls (ev @ map ReadContents (target # subs) @ [NotifyInfo NoDocuments]) = []"
    using e by (rule store_calls_no_documents)
  ultimately show ?thesis using c by blast
qed

theorem no_documents_outcome_witness:
  "enumerable heap_B throwing 12 (FNode 12 [])
   \<and> cascadeOwnership heap_B throwing rejecting 12 formData_A ()
       = Some (NoDocumentsFound,
               [GetSubfolders 12, ManualTraversal 12, ReadContents 12, NotifyInfo NoDocuments], ())"
proof -
  have en: "enumerable heap_B throwing 12 (FNode 12 [])"
    by (simp add: enumerable_def throwing_def heap_B_def kids_def)
  from no_documents_outcome[OF en, of rejecting formData_A "()"]
  obtain allFolders ev where
    c: "collectFolders heap_B throwing 12 = Some (allFolders, ev)"
    and i: "(\<forall>f \<in> set allFolders. docs heap_B f = []) \<longrightarrow>
        cascadeOwnership heap_B throwing rejecting 12 formData_A ()
          = (if buildOwnership formData_A = [] then Some (NothingToApply, [], ())
             else Some (NoDocumentsFound,
                        ev @ map ReadContents allFolders @ [NotifyInfo NoDocuments], ()))"
    by blast
  from c have "allFolders = [12]" "ev = [GetSubfolders 12, ManualTraversal 12]"
    by (simp_all add: collect_B_leaf)
  with i en show ?thesis by (simp add: docs_B ownership_A)
qed



text \<open>
  C7: when the batch call of the store succeeds, the cascade ends with the success outcome
  and notifies the number of updates of the batch and the number of collected folders minus
  one.
\<close>

theorem success_reports_counts:
  assumes "buildOwnership formData \<noteq> []"
    and "enumerable h getSubfolders target t"
  shows "\<exists>allFolders ev.
           collectFolders h getSubfolders target = Some (allFolders, ev)
           \<and> (\<forall>batch st'.
                 batch = collectUpdates h (buildOwnership formData) allFolders
                 \<and> batch \<noteq> []
                 \<and> updateDocuments st batch = (st', None) \<longrightarrow>
                 cascadeOwnership h getSubfolders updateDocuments target formData st
                   = Some (Success (length batch) (int (length allFolders) - 1),
                           ev @ map ReadContents allFolders
                             @ [UpdateDocuments batch,
                                NotifyInfo (SuccessCascade (length batch)
                                              (int (length allFolders) - 1))],
                           st'))"
proof -
  from collectFolders_returns[OF assms(2)] obtain subs ev
    where c: "collectFolders h getSubfolders target = Some (target # subs, ev)"
    by blast
  have "cascadeOwnership h getSubfolders updateDocuments target formData st
          = Some (Success (length batch) (int (length (target # subs)) - 1),
                  ev @ map ReadContents (target # subs)
                    @ [UpdateDocuments batch,
                       NotifyInfo (SuccessCascade (length batch)
                                     (int (length (target # subs)) - 1))],
                  st')"
    if "batch = collectUpdates h (buildOwnership formData) (target # subs)"
      and "batch \<noteq> []" and "updateDocuments st batch = (st', None)"
    for batch st'
    using assms(1) c that(1)[symmetric] that(2,3) by (rule cascade_success)
  with c show ?thesis by blast
qed

theorem success_reports_counts_witness:
  "buildOwnership formData_B \<noteq> [] \<and> enumerable heap_B (\<lambda>f. Inr [11, 12]) 10 tree_B
   \<and> (\<exists>tr. cascadeOwnership heap_B (\<lambda>f. Inr [11, 12]) accepting 10 formData_B ()
              = Some (Success 5 2, tr, ()))"
proof -
  have en: "enumerable heap_B (\<lambda>f. Inr [11, 12]) 10 tree_B"
    by (simp add: enumerable_def)
  from success_reports_counts[OF ownership_B_nonempty en, of accepting "()"]
  obtain allFolders ev where
    c: "collectFolders heap_B (\<lambda>f. Inr [11, 12]) 10 = Some (allFolders, ev)"
    and i: "\<And>batch st'. batch = collectUpdates heap_B (buildOwnership formData_B) allFolders
          \<and> batch \<noteq> [] \<and> accepting () batch = (st', None) \<Longrightarrow>
          cascadeOwnership heap_B (\<lambda>f. Inr [11, 12]) accepting 10 formData_B ()
            = Some (Success (length batch) (int (length allFolders) - 1),
                    ev @ map ReadContents allFolders
                      @ [UpdateDocuments batch,
                         NotifyInfo (SuccessCascade (length batch)
                                       (int (length allFolders) - 1))],
                    st')"
    by blast
  from c have a: "allFolders = [10, 11, 12]"
    by (simp add: collect_B_primary)
  have "\<exists>tr. cascadeOwnership heap_B (\<lambda>f. Inr [11, 12]) accepting 10 formData_B ()
              = Some (Success 5 2, tr, ())"
    using i[of "collectUpdates heap_B (buildOwnership formData_B) allFolders" "()"]
    by (simp add: a batch_B accepting_def)
  with ownership_B_nonempty en show ?thesis by blast
qed

text \<open>
  C8: when the batch call of the store rejects, the cascade returns with the failure
  outcome that carries the error, logs the error to the console and notifies a generic
  error; the store was called once.
\<close>

theorem failure_is_reported_once:
  assumes "buildOwnership formData \<noteq> []"
    and "enumerable h getSubfolders target t"
  shows "\<exists>allFolders ev.
           collectFolders h getSubfolders target = Some (allFolders, ev)
           \<and> (\<forall>batch st' err.
                 batch = collectUpdates h (buildOwnership formData) allFolders
                 \<and> batch \<noteq> []
                 \<and> updateDocuments st batch = (st', Some err) \<longrightarrow>
                 cascadeOwnership h getSubfolders updateDocuments target formData st
                   = Some (Failure err,
                           ev @ map ReadContents allFolders
                             @ [UpdateDocuments batch, ConsoleError err,
                                NotifyError ErrorCascade],
                           st')
                 \<and> store_calls (ev @ map ReadContents allFolders
                                  @ [UpdateDocuments batch, ConsoleError err,
                                     NotifyError ErrorCascade]) = [batch])"
proof -
  from collectFolders_returns[OF assms(2)] obtain subs ev
    where c: "collectFolders h getSubfolders target = Some (target # subs, ev)"
      and e: "store_calls ev = []"
    by blast
  have "cascadeOwnership h getSubfolders updateDocuments target formData st
          = Some (Failure err,
                  ev @ map ReadContents (target # subs)
                    @ [UpdateDocuments batch, ConsoleError err, NotifyError ErrorCascade],
                  st')"
    if "batch = collectUpdates h (buildOwnership formData) (target # subs)"
      and "batch \<noteq> []" and "updateDocuments st batch = (st', Some err)"
    for batch st' err
    using assms(1) c that(1)[symmetric] that(2,3) by (rule cascade_failure)
  moreover have "store_calls (ev @ map ReadContents (target # subs)
                    @ [UpdateDocuments batch, ConsoleError err, NotifyError ErrorCascade])
                  = [batch]" for batch err
    using e by (rule store_calls_failure)
  ultimately show ?thesis using c by blast
qed

theorem failure_is_reported_once_witness:
  "buildOwnership formData_B \<noteq> [] \<and> enumerable heap_B throwing 10 tree_B
   \<and> (\<exists>tr batch. cascadeOwnership heap_B throwing rejecting 10 formData_B ()
              = Some (Failure (Thrown (str ''permission denied'')), tr, ())
            \<and> store_calls tr = [batch])"
proof -
  from failure_is_reported_once[OF ownership_B_nonempty enumerable_B_fallback, of rejecting "()"]
  obtain allFolders ev where
    c: "collectFolders heap_B throwing 10 = Some (allFolders, ev)"
    and i: "\<And>batch st' err. batch = collectUpdates heap_B (buildOwnership formData_B) allFolders
          \<and> batch \<noteq> [] \<and> rejecting () batch = (st', Some err) \<Longrightarrow>
          cascadeOwnership heap_B throwing rejecting 10 formData_B ()
            = Some (Failure err,
                    ev @ map ReadContents allFolders
                      @ [UpdateDocuments batch, ConsoleError err, NotifyError ErrorCascade],
                    st')
          \<and> store_calls (ev @ map ReadContents allFolders
                @ [UpdateDocuments batch, ConsoleError err, NotifyError ErrorCascade]) = [batch]"
    by blast
  from c have a: "allFolders = [10, 11, 12]"
    by (simp add: collect_B_fallback)
  have "collectUpdates heap_B (buildOwnership formData_B) allFolders \<noteq> []"
    by (simp add: a batch_B)
  moreover have "rejecting () (collectUpdates heap_B (buildOwnership formData_B) allFolders)
      = ((), Some (Thrown (str ''permission denied'')))"
    by (simp add: rejecting_def)
  ultimately have "\<exists>tr batch. cascadeOwnership heap_B throwing rejecting 10 formData_B ()
              = Some (Failure (Thrown (str ''permission denied'')), tr, ())
            \<and> store_calls tr = [batch]"
    using i[of "collectUpdates heap_B (buildOwnership formData_B) allFolders" "()"
        "Thrown (str ''permission denied'')"]
    by blast
  with ownership_B_nonempty enumerable_B_fallback show ?thesis by blast
qed

text \<open>
  C9: against the recording store, a second cascade with the same target, form data and
  folder graph ends with the same outcome and events as the first and leaves the store as
  the first left it.
\<close>

theorem cascade_twice_same_store:
  assumes "enumerable h getSubfolders target t"
  shows "\<exists>out tr st1.
           cascadeOwnership h getSubfolders recording_store target formData st = Some (out, tr, st1)
           \<and> cascadeOwnership h getSubfolders recording_store target formData st1
               = Some (out, tr, st1)"
proof (cases "buildOwnership formData = []")
  case True
  then show ?thesis by (simp add: cascade_empty)
next
  case False
  from collectFolders_returns[OF assms] obtain subs ev
    where c: "collectFolders h getSubfolders target = Some (target # subs, ev)"
    by blast
  define batch where "batch = collectUpdates h (buildOwnership formData) (target # subs)"
  have b: "collectUpdates h (buildOwnership formData) (target # subs) = batch"
    by (simp add: batch_def)
  show ?thesis
  proof (cases "batch = []")
    case True
    with b have "collectUpdates h (buildOwnership formData) (target # subs) = []" by simp
    from cascade_no_documents[where updateDocuments = recording_store and st = st,
        OF False c this]
    show ?thesis by simp
  next
    case nonempty: False
    define st1 where "st1 = fst (recording_store st batch)"
    have r1: "recording_store st batch = (st1, None)"
      by (simp add: st1_def recording_store_def)
    have "fst (recording_store st1 batch) = st1"
      unfolding st1_def by (rule recording_store_idem)
    then have r2: "recording_store st1 batch = (st1, None)"
      by (simp add: recording_store_def)
    note run1 = cascade_success[where updateDocuments = recording_store and st = st,
        OF False c b nonempty r1]
    note run2 = cascade_success[where updateDocuments = recording_store and st = st1,
        OF False c b nonempty r2]
    from run1 run2 show ?thesis by blast
  qed
qed

theorem cascade_twice_same_store_witness:
  "enumerable heap_B throwing 10 tree_B
   \<and> (\<exists>out tr st1.
         cascadeOwnership heap_B throwing recording_store 10 formData_B Map.empty
           = Some (out, tr, st1)
         \<and> cascadeOwnership heap_B throwing recording_store 10 formData_B st1
             = Some (out, tr, st1))"
  using cascade_twice_same_store[OF enumerable_B_fallback, of formData_B Map.empty]
    enumerable_B_fallback
  by blast

end
